theory Spec2Isabelle
  imports Main "HOL-Library.Sublist"
begin

section \<open>Strings and numbers of the host language\<close>

text \<open>
  Strings are modelled as lists of 8-bit characters; the case conversions below act on the
  ASCII letters and leave every other character alone.  Numbers that the code uses as
  years, indices and capacities are integers.
\<close>

definition upperLetters :: string where
  "upperLetters = ''ABCDEFGHIJKLMNOPQRSTUVWXYZ''"

definition lowerLetters :: string where
  "lowerLetters = ''abcdefghijklmnopqrstuvwxyz''"

definition isUpperAZ :: "char \<Rightarrow> bool" where
  "isUpperAZ c = (c \<in> set upperLetters)"

definition isDigit :: "char \<Rightarrow> bool" where
  "isDigit c = (c \<in> set ''0123456789'')"

text \<open>The class \<open>\s\<close> of the regular expressions, on ASCII: tab, line feed, vertical tab,
  form feed, carriage return and space.\<close>

definition isSpace :: "char \<Rightarrow> bool" where
  "isSpace c = (c \<in> set [CHR 0x09, CHR 0x0A, CHR 0x0B, CHR 0x0C, CHR 0x0D, CHR '' ''])"

definition lowerChar :: "char \<Rightarrow> char" where
  "lowerChar c = (case map_of (zip upperLetters lowerLetters) c of Some l \<Rightarrow> l | None \<Rightarrow> c)"

definition upperChar :: "char \<Rightarrow> char" where
  "upperChar c = (case map_of (zip lowerLetters upperLetters) c of Some u \<Rightarrow> u | None \<Rightarrow> c)"

definition toLowerCase :: "string \<Rightarrow> string" where
  "toLowerCase s = map lowerChar s"

definition toUpperCase :: "string \<Rightarrow> string" where
  "toUpperCase s = map upperChar s"

text \<open>Decimal rendering of an integer, as a template literal renders a number that is an
  integer of ordinary size.\<close>

definition digitChar :: "int \<Rightarrow> char" where
  "digitChar n = ''0123456789'' ! nat n"

function showDigits :: "int \<Rightarrow> string" where
  "showDigits n =
     (if n < 10 then [digitChar n] else showDigits (n div 10) @ [digitChar (n mod 10)])"
  by pat_completeness auto
termination
  by (relation "measure nat") auto

declare showDigits.simps [simp del]

definition numberToString :: "int \<Rightarrow> string" where
  "numberToString i = (if i < 0 then CHR ''-'' # showDigits (- i) else showDigits i)"

text \<open>\<open>Array.prototype.indexOf\<close>: the first position of the element, or \<open>-1\<close>.\<close>

fun indexOf :: "'a list \<Rightarrow> 'a \<Rightarrow> int" where
  "indexOf [] x = - 1"
| "indexOf (y # ys) x =
     (if y = x then 0 else (let r = indexOf ys x in if r < 0 then - 1 else r + 1))"

text \<open>\<open>xs.slice(0, e)\<close>: a negative end counts from the end of the array.\<close>

definition slice0 :: "'a list \<Rightarrow> int \<Rightarrow> 'a list" where
  "slice0 xs e =
     (let len = int (length xs);
          final = (if e < 0 then max (len + e) 0 else min e len)
      in take (nat final) xs)"

section \<open>Terms of the academic year (sfuOfferings.ts)\<close>

definition TERMS :: "string list" where
  "TERMS = [''spring'', ''summer'', ''fall'']"

text \<open>What \<open>new Date()\<close> gives the code: \<open>getFullYear()\<close> and \<open>getMonth()\<close> (0 to 11).\<close>

record date =
  fullYear :: int
  monthIndex :: nat

definition getCurrentSemester :: "date \<Rightarrow> int \<times> string" where
  "getCurrentSemester d =
     (let year = fullYear d;
          month = monthIndex d + 1;
          trm = (if month \<le> 4 then ''spring'' else if month \<le> 8 then ''summer'' else ''fall'')
      in (year, trm))"

record semester =
  year :: int
  termName :: string
  label :: string

definition cap :: "string \<Rightarrow> string" where
  "cap s = (case s of [] \<Rightarrow> [] | c # cs \<Rightarrow> upperChar c # cs)"

text \<open>The body of the \<open>for\<close> loop of \<open>listSemesters\<close>: the first argument counts the
  iterations that are left.\<close>

fun listSemestersLoop :: "nat \<Rightarrow> nat \<Rightarrow> int \<Rightarrow> semester list" where
  "listSemestersLoop 0 termIdx y = []"
| "listSemestersLoop (Suc n) termIdx y =
     (let trm = TERMS ! termIdx;
          item = \<lparr>year = y, termName = trm, label = cap trm @ '' '' @ numberToString y\<rparr>
      in item # (if termIdx + 1 \<ge> length TERMS
                 then listSemestersLoop n 0 (y + 1)
                 else listSemestersLoop n (termIdx + 1) y))"

definition listSemesters :: "int \<Rightarrow> string \<Rightarrow> int \<Rightarrow> semester list" where
  "listSemesters startYear startTerm maxSemesters =
     (let termIdx0 = indexOf TERMS (toLowerCase startTerm);
          termIdx = (if termIdx0 < 0 then 0 else termIdx0)
      in listSemestersLoop (nat maxSemesters) (nat termIdx) startYear)"

section \<open>The offering cache and its store (sfuOfferings.ts)\<close>

record OfferingsCache =
  lastUpdated :: string
  semesters :: "string \<rightharpoonup> string list"

text \<open>
  The cache document on disk, as \<open>readCache\<close> can find it: a file whose reading throws,
  text that \<open>JSON.parse\<close> rejects, a value without a usable \<open>semesters\<close> field, or a
  cache.  The first two end in the handler of \<open>readCache\<close>, which returns \<open>null\<close>.
\<close>

datatype document = Unreadable | Unparseable | MissingSemesters | CacheDocument OfferingsCache

text \<open>
  Everything outside the process that the module reads or changes: the \<open>data\<close> directory
  and the cache file in it, whether creating the directory and writing the file fail, the
  answers of the course-outlines service (the list \<open>fetchSemesterFromAPI\<close> returns for a
  year and a term, with the log of the requests made), and the clock.
\<close>

record world =
  dirExists :: bool
  mkdirFails :: bool
  writeFails :: bool
  cacheFile :: "document option"
  catalog :: "int \<Rightarrow> string \<Rightarrow> string list"
  fetchLog :: "(int \<times> string) list"
  nowISO :: string
  today :: date

datatype error = FsError

text \<open>\<open>fs.mkdirSync(dir, { recursive: true })\<close> and \<open>fs.writeFileSync(p, ...)\<close>, which throw
  when the medium refuses; writing also needs the directory.\<close>

definition mkdirSync :: "world \<Rightarrow> error + world" where
  "mkdirSync w = (if mkdirFails w then Inl FsError else Inr (w\<lparr>dirExists := True\<rparr>))"

definition writeFileSync :: "OfferingsCache \<Rightarrow> world \<Rightarrow> error + world" where
  "writeFileSync data w =
     (if writeFails w \<or> \<not> dirExists w then Inl FsError
      else Inr (w\<lparr>cacheFile := Some (CacheDocument data)\<rparr>))"

text \<open>\<open>getCachePath\<close> of src/lib/sfuOfferings.ts: the path is a constant, the effect is the
  attempt to create the directory, whose failure is caught.\<close>

definition getCachePath :: "world \<Rightarrow> world" where
  "getCachePath w =
     (if \<not> dirExists w
      then (case mkdirSync w of Inl e \<Rightarrow> w | Inr w' \<Rightarrow> w')
      else w)"

definition readCache :: "world \<Rightarrow> OfferingsCache option \<times> world" where
  "readCache w =
     (let w1 = getCachePath w
      in if \<not> dirExists w1 then (None, w1)
         else (case cacheFile w1 of
                 None \<Rightarrow> (None, w1)
               | Some Unreadable \<Rightarrow> (None, w1)
               | Some Unparseable \<Rightarrow> (None, w1)
               | Some MissingSemesters \<Rightarrow> (None, w1)
               | Some (CacheDocument data) \<Rightarrow> (Some data, w1)))"

text \<open>\<open>writeCache\<close> of src/lib/sfuOfferings.ts: the write is inside \<open>try\<close>, the handler
  does not re-throw.\<close>

definition writeCache :: "OfferingsCache \<Rightarrow> world \<Rightarrow> error + world" where
  "writeCache data w =
     (let w1 = getCachePath w
      in case writeFileSync data w1 of Inl e \<Rightarrow> Inr w1 | Inr w2 \<Rightarrow> Inr w2)"

text \<open>The other copy of the module (src/unnamed/part_003, lines 32 to 36 and 51 to 54):
  neither the creation of the directory nor the write is guarded.\<close>

definition getCachePath_part003 :: "world \<Rightarrow> error + world" where
  "getCachePath_part003 w = (if \<not> dirExists w then mkdirSync w else Inr w)"

definition writeCache_part003 :: "OfferingsCache \<Rightarrow> world \<Rightarrow> error + world" where
  "writeCache_part003 data w =
     (case getCachePath_part003 w of
        Inl e \<Rightarrow> Inl e
      | Inr w1 \<Rightarrow> writeFileSync data w1)"

definition semesterKey :: "int \<Rightarrow> string \<Rightarrow> string" where
  "semesterKey y trm = numberToString y @ ''-'' @ toLowerCase trm"

text \<open>\<open>fetchSemesterFromAPI\<close> catches every failure of the network and returns a list;
  the model takes that list from the world and logs the request.\<close>

definition fetchSemesterFromAPI :: "int \<Rightarrow> string \<Rightarrow> world \<Rightarrow> string list \<times> world" where
  "fetchSemesterFromAPI y trm w = (catalog w y trm, w\<lparr>fetchLog := fetchLog w @ [(y, trm)]\<rparr>)"

text \<open>
  The result is the offerings, the new cache and the world after the call.  The copy of the
  cache is equal to the cache as a value.  The call of \<open>writeCache\<close> is not guarded
  here, so an exception of \<open>writeCache\<close> would leave the function.
\<close>

definition getOfferingsForSemester ::
  "int \<Rightarrow> string \<Rightarrow> OfferingsCache option \<Rightarrow> world
     \<Rightarrow> error + (string list \<times> OfferingsCache \<times> world)" where
  "getOfferingsForSemester y trm cache w =
     (let key = semesterKey y trm;
          nextCache = (case cache of
                         Some c \<Rightarrow> c\<lparr>semesters := semesters c\<rparr>
                       | None \<Rightarrow> \<lparr>lastUpdated = nowISO w, semesters = Map.empty\<rparr>)
      in case semesters nextCache key of
           Some (x # xs) \<Rightarrow> Inr (x # xs, nextCache, w)
         | _ \<Rightarrow>
           (let (offerings, w1) = fetchSemesterFromAPI y trm w;
                nextCache1 = nextCache\<lparr>semesters := (semesters nextCache)(key \<mapsto> offerings)\<rparr>;
                nextCache2 = nextCache1\<lparr>lastUpdated := nowISO w1\<rparr>
            in case writeCache nextCache2 w1 of
                 Inl e \<Rightarrow> Inl e
               | Inr w2 \<Rightarrow> Inr (offerings, nextCache2, w2)))"

definition predictOfferingsForSemester ::
  "int \<Rightarrow> string \<Rightarrow> OfferingsCache option \<Rightarrow> string list" where
  "predictOfferingsForSemester y trm cache =
     (case cache of
        None \<Rightarrow> []
      | Some c \<Rightarrow>
          (let prevKey = semesterKey (y - 1) trm
           in case semesters c prevKey of Some offs \<Rightarrow> offs | None \<Rightarrow> []))"

text \<open>The result is the offerings, the new cache, the flag \<open>fromPrediction\<close> and the
  world after the call.\<close>

definition getOfferingsForSemesterWithPrediction ::
  "int \<Rightarrow> string \<Rightarrow> OfferingsCache option \<Rightarrow> world
     \<Rightarrow> error + (string list \<times> OfferingsCache \<times> bool \<times> world)" where
  "getOfferingsForSemesterWithPrediction y trm cache w =
     (case getOfferingsForSemester y trm cache w of
        Inl e \<Rightarrow> Inl e
      | Inr (offerings, nextCache, w1) \<Rightarrow>
          if length offerings > 0
          then Inr (offerings, nextCache, False, w1)
          else (let predicted = predictOfferingsForSemester y trm (Some nextCache)
                in Inr (predicted, nextCache, True, w1)))"

section \<open>The scheduler (recommend-courses route, src/unnamed/part_002)\<close>

definition MAX_SEMESTERS_PLAN :: int where
  "MAX_SEMESTERS_PLAN = 12"

text \<open>\<open>s.replace(/\s+/g, " ")\<close>: every run of white space becomes one space.\<close>

function collapseWs :: "string \<Rightarrow> string" where
  "collapseWs [] = []"
| "collapseWs (c # cs) =
     (if isSpace c then CHR '' '' # collapseWs (dropWhile isSpace cs) else c # collapseWs cs)"
  by pat_completeness auto
termination
  by (relation "measure length") (auto simp: length_dropWhile_le less_Suc_eq_le)

definition trim :: "string \<Rightarrow> string" where
  "trim s = rev (dropWhile isSpace (rev (dropWhile isSpace s)))"

text \<open>
  \<open>normalizeCode\<close>: the pattern \<open>^([A-Z]+)\s*(\d.*)$\<close> matches when the string starts with
  letters, followed by optional white space and a digit; the three character classes are
  disjoint, so the first group is the longest run of letters.  After the collapse of white
  space no line terminator is left, so \<open>.*\<close> takes the rest of the string.
\<close>

definition normalizeCode :: "string \<Rightarrow> string" where
  "normalizeCode code =
     (let s = toUpperCase (trim (collapseWs code));
          dept = takeWhile isUpperAZ s;
          rest = dropWhile isSpace (dropWhile isUpperAZ s)
      in if dept \<noteq> [] \<and> rest \<noteq> [] \<and> isDigit (hd rest)
         then dept @ '' '' @ rest
         else s)"

text \<open>A \<open>Set\<close> of strings keeps its elements in the order of their first insertion; it is
  modelled as a list without repetition.\<close>

definition setAdd :: "'a list \<Rightarrow> 'a \<Rightarrow> 'a list" where
  "setAdd s x = (if x \<in> set s then s else s @ [x])"

definition newSet :: "'a list \<Rightarrow> 'a list" where
  "newSet xs = foldl setAdd [] xs"

definition setDelete :: "'a list \<Rightarrow> 'a \<Rightarrow> 'a list" where
  "setDelete s x = filter (\<lambda>y. y \<noteq> x) s"

text \<open>The \<open>Map\<close> filled by \<open>codeToOriginal.set(normalizeCodeFn(c), c)\<close> for each code in
  turn: a later code replaces an earlier one with the same key.\<close>

definition buildCodeToOriginal :: "(string \<Rightarrow> string) \<Rightarrow> string list \<Rightarrow> (string \<rightharpoonup> string)" where
  "buildCodeToOriginal normalizeCodeFn recommendedCodes =
     foldl (\<lambda>m c. m(normalizeCodeFn c \<mapsto> c)) Map.empty recommendedCodes"

record SemesterPlanItem = semester +
  courses :: "string list"
  fromPrediction :: "bool option"

text \<open>The variables of the loop of \<open>buildSemesterPlan\<close>, with the world.\<close>

record planState =
  plan :: "SemesterPlanItem list"
  remaining :: "string list"
  cache :: "OfferingsCache option"
  wld :: world

text \<open>One iteration of the loop, after the test of \<open>remaining.size\<close>.\<close>

definition planStep ::
  "int \<Rightarrow> (string \<Rightarrow> string) \<Rightarrow> (string \<rightharpoonup> string) \<Rightarrow> semester \<Rightarrow> planState
     \<Rightarrow> error + planState" where
  "planStep coursesPerSemester normalizeCodeFn codeToOriginal sem st =
     (case getOfferingsForSemesterWithPrediction (year sem) (termName sem) (cache st) (wld st) of
        Inl e \<Rightarrow> Inl e
      | Inr (offs, nextCache, fromPred, w1) \<Rightarrow>
          (let offeredSet = newSet (map normalizeCodeFn offs);
               offeredFromList = filter (\<lambda>code. code \<in> set offeredSet) (remaining st);
               taken = slice0 offeredFromList coursesPerSemester;
               remaining1 = foldl setDelete (remaining st) taken;
               plan1 = (if length taken > 0
                        then plan st @
                          [\<lparr>year = year sem, termName = termName sem, label = label sem,
                            courses = map (\<lambda>code. case codeToOriginal code of
                                                    Some c \<Rightarrow> c | None \<Rightarrow> code) taken,
                            fromPrediction = (if fromPred then Some True else None)\<rparr>]
                        else plan st)
           in Inr \<lparr>plan = plan1, remaining = remaining1, cache = Some nextCache, wld = w1\<rparr>))"

fun planLoop ::
  "int \<Rightarrow> (string \<Rightarrow> string) \<Rightarrow> (string \<rightharpoonup> string) \<Rightarrow> semester list \<Rightarrow> planState
     \<Rightarrow> error + planState" where
  "planLoop coursesPerSemester normalizeCodeFn codeToOriginal [] st = Inr st"
| "planLoop coursesPerSemester normalizeCodeFn codeToOriginal (sem # sems) st =
     (if length (remaining st) = 0 then Inr st
      else (case planStep coursesPerSemester normalizeCodeFn codeToOriginal sem st of
              Inl e \<Rightarrow> Inl e
            | Inr st1 \<Rightarrow> planLoop coursesPerSemester normalizeCodeFn codeToOriginal sems st1))"

text \<open>The state in which the loop starts: the set of the normalized codes, the cache read
  from the disk.\<close>

definition initialState :: "string list \<Rightarrow> (string \<Rightarrow> string) \<Rightarrow> world \<Rightarrow> planState" where
  "initialState recommendedCodes normalizeCodeFn w =
     (let (c, w1) = readCache w
      in \<lparr>plan = [], remaining = newSet (map normalizeCodeFn recommendedCodes),
          cache = c, wld = w1\<rparr>)"

text \<open>The terms the loop walks: twelve terms from the current one.\<close>

definition horizon :: "world \<Rightarrow> semester list" where
  "horizon w =
     (let (startYear, startTerm) = getCurrentSemester (today w)
      in listSemesters startYear startTerm MAX_SEMESTERS_PLAN)"

definition buildSemesterPlan ::
  "string list \<Rightarrow> int \<Rightarrow> (string \<Rightarrow> string) \<Rightarrow> world
     \<Rightarrow> error + (SemesterPlanItem list \<times> world)" where
  "buildSemesterPlan recommendedCodes coursesPerSemester normalizeCodeFn w =
     (let st0 = initialState recommendedCodes normalizeCodeFn w;
          codeToOriginal = buildCodeToOriginal normalizeCodeFn recommendedCodes
      in case planLoop coursesPerSemester normalizeCodeFn codeToOriginal (horizon (wld st0)) st0 of
           Inl e \<Rightarrow> Inl e
         | Inr st \<Rightarrow> Inr (plan st, wld st))"

text \<open>The normalized codes of the courses of a plan, in the order of the plan.\<close>

abbreviation scheduledCodes :: "(string \<Rightarrow> string) \<Rightarrow> SemesterPlanItem list \<Rightarrow> string list" where
  "scheduledCodes f p \<equiv> map f (concat (map courses p))"


section \<open>Example inputs\<close>

definition exampleCache :: OfferingsCache where
  "exampleCache = \<lparr>lastUpdated = ''2024-01-01T00:00:00.000Z'',
                    semesters = [''2023-fall'' \<mapsto> [''CMPT 120'']]\<rparr>"

definition exampleWorld :: world where
  "exampleWorld = \<lparr>dirExists = False, mkdirFails = True, writeFails = True,
     cacheFile = None, catalog = (\<lambda>y t. []), fetchLog = [],
     nowISO = ''2024-10-01T00:00:00.000Z'', today = \<lparr>fullYear = 2024, monthIndex = 9\<rparr>\<rparr>"

definition hitCache :: OfferingsCache where
  "hitCache = \<lparr>lastUpdated = ''2024-01-01T00:00:00.000Z'',
                semesters = [''2023-fall'' \<mapsto> [''CMPT 120''], ''2024-fall'' \<mapsto> [''CMPT 225'']]\<rparr>"

definition readOnlyWorld :: world where
  "readOnlyWorld = \<lparr>dirExists = True, mkdirFails = True, writeFails = True,
     cacheFile = None, catalog = (\<lambda>y t. []), fetchLog = [],
     nowISO = ''2024-10-01T00:00:00.000Z'', today = \<lparr>fullYear = 2024, monthIndex = 9\<rparr>\<rparr>"

definition fallCache :: OfferingsCache where
  "fallCache = \<lparr>lastUpdated = ''2024-09-01T00:00:00.000Z'',
                 semesters = [''2024-fall'' \<mapsto> [''MATH 240'', ''CMPT 295'', ''CMPT 225'']]\<rparr>"

definition fallWorld :: world where
  "fallWorld = \<lparr>dirExists = True, mkdirFails = True, writeFails = True,
     cacheFile = Some (CacheDocument fallCache), catalog = (\<lambda>y t. []), fetchLog = [],
     nowISO = ''2024-10-01T00:00:00.000Z'', today = \<lparr>fullYear = 2024, monthIndex = 9\<rparr>\<rparr>"

definition desiredExample :: "string list" where
  "desiredExample = [''CMPT 225'', ''CMPT 295'', ''MATH 240'']"


section \<open>Auxiliary facts\<close>

lemma toLowerCase_TERMS:
  "toLowerCase ''spring'' = ''spring''" "toLowerCase ''summer'' = ''summer''"
  "toLowerCase ''fall'' = ''fall''"
  by code_simp+

lemma indexOf_TERMS:
  "indexOf TERMS ''spring'' = 0" "indexOf TERMS ''summer'' = 1" "indexOf TERMS ''fall'' = 2"
  by (simp_all add: TERMS_def)

lemma getCachePath_fields [simp]:
  "catalog (getCachePath w) = catalog w" "today (getCachePath w) = today w"
  "nowISO (getCachePath w) = nowISO w" "fetchLog (getCachePath w) = fetchLog w"
  by (simp_all add: getCachePath_def mkdirSync_def)

lemma writeCache_Inr:
  "\<exists>w'. writeCache data w = Inr w' \<and> catalog w' = catalog w \<and> today w' = today w \<and>
        nowISO w' = nowISO w \<and> fetchLog w' = fetchLog w"
  by (auto simp: writeCache_def writeFileSync_def Let_def)

lemma getOfferingsForSemester_hit:
  assumes "semesters c (semesterKey y t) = Some xs" and "xs \<noteq> []"
  shows "getOfferingsForSemester y t (Some c) w = Inr (xs, c, w)"
  using assms by (cases xs) (simp_all add: getOfferingsForSemester_def)

lemma getOfferingsForSemester_miss:
  assumes "semesters c (semesterKey y t) = None \<or> semesters c (semesterKey y t) = Some []"
  shows "\<exists>w'. getOfferingsForSemester y t (Some c) w =
           Inr (catalog w y t,
                c\<lparr>semesters := (semesters c)(semesterKey y t \<mapsto> catalog w y t),
                  lastUpdated := nowISO w\<rparr>, w') \<and>
         catalog w' = catalog w \<and> today w' = today w \<and> nowISO w' = nowISO w \<and>
         fetchLog w' = fetchLog w @ [(y, t)]"
proof -
  let ?c2 = "c\<lparr>semesters := (semesters c)(semesterKey y t \<mapsto> catalog w y t),
                  lastUpdated := nowISO w\<rparr>"
  let ?w1 = "w\<lparr>fetchLog := fetchLog w @ [(y, t)]\<rparr>"
  obtain w' where w': "writeCache ?c2 ?w1 = Inr w'" "catalog w' = catalog ?w1"
    "today w' = today ?w1" "nowISO w' = nowISO ?w1" "fetchLog w' = fetchLog ?w1"
    using writeCache_Inr [of ?c2 ?w1] by blast
  from assms w' show ?thesis
    by (auto simp: getOfferingsForSemester_def fetchSemesterFromAPI_def)
qed

lemma getOfferingsForSemester_null:
  "\<exists>w'. getOfferingsForSemester y t None w =
           Inr (catalog w y t,
                \<lparr>lastUpdated = nowISO w, semesters = [semesterKey y t \<mapsto> catalog w y t]\<rparr>, w') \<and>
         catalog w' = catalog w \<and> today w' = today w \<and> nowISO w' = nowISO w \<and>
         fetchLog w' = fetchLog w @ [(y, t)]"
proof -
  let ?c2 = "\<lparr>lastUpdated = nowISO w, semesters = [semesterKey y t \<mapsto> catalog w y t]\<rparr>"
  let ?w1 = "w\<lparr>fetchLog := fetchLog w @ [(y, t)]\<rparr>"
  obtain w' where w': "writeCache ?c2 ?w1 = Inr w'" "catalog w' = catalog ?w1"
    "today w' = today ?w1" "nowISO w' = nowISO ?w1" "fetchLog w' = fetchLog ?w1"
    using writeCache_Inr [of ?c2 ?w1] by blast
  from w' show ?thesis
    by (auto simp: getOfferingsForSemester_def fetchSemesterFromAPI_def)
qed

lemma getOfferingsForSemester_Inr:
  "\<exists>offs c' w'. getOfferingsForSemester y t cch w = Inr (offs, c', w') \<and>
      catalog w' = catalog w \<and> today w' = today w \<and> nowISO w' = nowISO w"
proof (cases cch)
  case None
  then show ?thesis using getOfferingsForSemester_null [of y t w] by auto
next
  case (Some c)
  show ?thesis
  proof (cases "semesters c (semesterKey y t) = None \<or> semesters c (semesterKey y t) = Some []")
    case True
    then show ?thesis using getOfferingsForSemester_miss [of c y t w] Some by auto
  next
    case False
    then obtain xs where "semesters c (semesterKey y t) = Some xs" "xs \<noteq> []" by auto
    then show ?thesis using getOfferingsForSemester_hit [of c y t xs w] Some by auto
  qed
qed

lemma getOfferingsForSemesterWithPrediction_Inr:
  "\<exists>offs c' fp w'. getOfferingsForSemesterWithPrediction y t cch w = Inr (offs, c', fp, w') \<and>
      catalog w' = catalog w \<and> today w' = today w \<and> nowISO w' = nowISO w"
proof -
  obtain offs c' w' where "getOfferingsForSemester y t cch w = Inr (offs, c', w')"
    "catalog w' = catalog w" "today w' = today w" "nowISO w' = nowISO w"
    using getOfferingsForSemester_Inr by blast
  then show ?thesis
    by (auto simp: getOfferingsForSemesterWithPrediction_def Let_def)
qed

lemma semesterKey_examples:
  "semesterKey 2024 ''fall'' = ''2024-fall''" "semesterKey (2024 - 1) ''fall'' = ''2023-fall''"
  by code_simp+

lemma hd_listSemesters:
  assumes "t \<in> set TERMS"
  shows "hd (listSemesters y t MAX_SEMESTERS_PLAN) =
           \<lparr>year = y, termName = t, label = cap t @ '' '' @ numberToString y\<rparr>"
proof -
  obtain k where n: "nat MAX_SEMESTERS_PLAN = Suc k"
    by (simp add: MAX_SEMESTERS_PLAN_def numeral_eq_Suc)
  from assms consider "t = ''spring''" | "t = ''summer''" | "t = ''fall''"
    by (auto simp: TERMS_def)
  then show ?thesis
    unfolding listSemesters_def n
    by cases (simp_all add: toLowerCase_TERMS indexOf_TERMS Let_def TERMS_def)
qed

lemma set_foldl_setAdd: "set (foldl setAdd acc xs) = set acc \<union> set xs"
  by (induction xs arbitrary: acc) (auto simp: setAdd_def)

lemma distinct_foldl_setAdd: "distinct acc \<Longrightarrow> distinct (foldl setAdd acc xs)"
  by (induction xs arbitrary: acc) (auto simp: setAdd_def)

lemma set_newSet [simp]: "set (newSet xs) = set xs"
  by (simp add: newSet_def set_foldl_setAdd)

lemma distinct_newSet [simp]: "distinct (newSet xs)"
  by (simp add: newSet_def distinct_foldl_setAdd)

lemma foldl_setDelete: "foldl setDelete s ts = filter (\<lambda>y. y \<notin> set ts) s"
proof (induction ts arbitrary: s)
  case Nil
  then show ?case by simp
next
  case (Cons t ts)
  have "filter (\<lambda>y. y \<notin> set ts) (filter (\<lambda>y. y \<noteq> t) s) = filter (\<lambda>y. y \<notin> set (t # ts)) s"
    by (induction s) auto
  with Cons show ?case by (simp add: setDelete_def)
qed

lemma slice0_take:
  "slice0 xs e = take (nat (if e < 0 then max (int (length xs) + e) 0 else min e (int (length xs)))) xs"
  by (simp add: slice0_def Let_def)

lemma prefix_slice0: "prefix (slice0 xs e) xs"
  by (simp add: slice0_take take_is_prefix)

lemma length_slice0: "0 \<le> e \<Longrightarrow> length (slice0 xs e) = min (nat e) (length xs)"
  by (auto simp: slice0_take)

lemma slice0_zero [simp]: "slice0 xs 0 = []"
  by (simp add: slice0_take)

lemma buildCodeToOriginal_last:
  "buildCodeToOriginal f codes k =
     (if k \<in> f ` set codes then Some (last (filter (\<lambda>d. f d = k) codes)) else None)"
proof (induction codes rule: rev_induct)
  case Nil
  then show ?case by (simp add: buildCodeToOriginal_def)
next
  case (snoc c cs)
  have "buildCodeToOriginal f (cs @ [c]) = (buildCodeToOriginal f cs)(f c \<mapsto> c)"
    by (simp add: buildCodeToOriginal_def)
  with snoc show ?case by auto
qed

lemma display_normalizes:
  assumes "k \<in> f ` set codes"
  shows "f (case buildCodeToOriginal f codes k of Some c \<Rightarrow> c | None \<Rightarrow> k) = k"
    and "(case buildCodeToOriginal f codes k of Some c \<Rightarrow> c | None \<Rightarrow> k) =
           last (filter (\<lambda>d. f d = k) codes)"
    and "last (filter (\<lambda>d. f d = k) codes) \<in> set codes"
proof -
  from assms have ne: "filter (\<lambda>d. f d = k) codes \<noteq> []"
    by (auto simp: filter_empty_conv)
  from last_in_set [OF ne] have l: "last (filter (\<lambda>d. f d = k) codes) \<in> set (filter (\<lambda>d. f d = k) codes)" .
  then show "last (filter (\<lambda>d. f d = k) codes) \<in> set codes" by simp
  from assms show "(case buildCodeToOriginal f codes k of Some c \<Rightarrow> c | None \<Rightarrow> k) =
           last (filter (\<lambda>d. f d = k) codes)"
    by (simp add: buildCodeToOriginal_last)
  with l show "f (case buildCodeToOriginal f codes k of Some c \<Rightarrow> c | None \<Rightarrow> k) = k"
    by simp
qed

lemma planStep_result:
  assumes "getOfferingsForSemesterWithPrediction (year sem) (termName sem) (cache st) (wld st) =
             Inr (offs, c', fp, w')"
    and "chosen = slice0 (filter (\<lambda>code. code \<in> f ` set offs) (remaining st)) n"
  shows "planStep n f m sem st =
     Inr \<lparr>plan = (if chosen \<noteq> []
                  then plan st @
                       [\<lparr>year = year sem, termName = termName sem, label = label sem,
                         courses = map (\<lambda>code. case m code of Some c \<Rightarrow> c | None \<Rightarrow> code) chosen,
                         fromPrediction = (if fp then Some True else None)\<rparr>]
                  else plan st),
          remaining = filter (\<lambda>y. y \<notin> set chosen) (remaining st),
          cache = Some c', wld = w'\<rparr>"
  using assms by (simp add: planStep_def Let_def foldl_setDelete)

lemma planStep_Inr: "\<exists>st'. planStep n f m sem st = Inr st'"
proof -
  obtain offs c' fp w' where
    "getOfferingsForSemesterWithPrediction (year sem) (termName sem) (cache st) (wld st) =
       Inr (offs, c', fp, w')"
    using getOfferingsForSemesterWithPrediction_Inr by blast
  from planStep_result [OF this refl] show ?thesis by blast
qed

lemma planLoop_invariant:
  assumes "I st"
    and step: "\<And>sem s s'. I s \<Longrightarrow> remaining s \<noteq> [] \<Longrightarrow> planStep n f m sem s = Inr s' \<Longrightarrow> I s'"
  shows "\<exists>st'. planLoop n f m sems st = Inr st' \<and> I st'"
  using assms(1)
proof (induction sems arbitrary: st)
  case Nil
  then show ?case by simp
next
  case (Cons sem sems)
  show ?case
  proof (cases "remaining st = []")
    case True
    with Cons.prems show ?thesis by simp
  next
    case False
    obtain s' where s': "planStep n f m sem st = Inr s'"
      using planStep_Inr by blast
    from step [OF Cons.prems False s'] have "I s'" .
    from Cons.IH [OF this] s' False show ?thesis by simp
  qed
qed


lemma planStep_scheduled:
  assumes R: "remaining st =
                filter (\<lambda>d. d \<notin> set (scheduledCodes f (plan st))) (newSet (map f codes))"
    and res: "getOfferingsForSemesterWithPrediction (year sem) (termName sem) (cache st) (wld st) =
                Inr (offs, c', fp, w')"
    and chosen: "chosen = slice0 (filter (\<lambda>d. d \<notin> set (scheduledCodes f (plan st)) \<and> d \<in> f ` set offs)
                                   (newSet (map f codes))) n"
  shows "\<exists>st'. planStep n f (buildCodeToOriginal f codes) sem st = Inr st' \<and>
      plan st' = (if chosen \<noteq> []
                  then plan st @
                       [\<lparr>year = year sem, termName = termName sem, label = label sem,
                         courses = map (\<lambda>k. last (filter (\<lambda>d. f d = k) codes)) chosen,
                         fromPrediction = (if fp then Some True else None)\<rparr>]
                  else plan st) \<and>
      scheduledCodes f (plan st') = scheduledCodes f (plan st) @ chosen \<and>
      remaining st' =
        filter (\<lambda>d. d \<notin> set (scheduledCodes f (plan st'))) (newSet (map f codes)) \<and>
      cache st' = Some c' \<and> wld st' = w'"
proof -
  let ?S = "set (scheduledCodes f (plan st))"
  let ?D = "newSet (map f codes)"
  let ?disp = "\<lambda>code. case buildCodeToOriginal f codes code of Some c \<Rightarrow> c | None \<Rightarrow> code"
  have off: "filter (\<lambda>code. code \<in> f ` set offs) (remaining st) =
             filter (\<lambda>d. d \<notin> ?S \<and> d \<in> f ` set offs) ?D"
    by (simp add: R)
  then have ch: "chosen = slice0 (filter (\<lambda>code. code \<in> f ` set offs) (remaining st)) n"
    using chosen by simp
  have "set chosen \<subseteq> set (filter (\<lambda>d. d \<notin> ?S \<and> d \<in> f ` set offs) ?D)"
    using chosen prefix_slice0 set_mono_prefix by metis
  then have sub: "set chosen \<subseteq> f ` set codes" by auto
  have disp: "map ?disp chosen = map (\<lambda>k. last (filter (\<lambda>d. f d = k) codes)) chosen"
    using sub by (intro map_cong) (auto simp: display_normalizes(2))
  have nb: "map f (map ?disp chosen) = chosen"
  proof -
    have "map (f \<circ> ?disp) chosen = map id chosen"
      using sub by (intro map_cong) (auto simp: display_normalizes(1))
    then show ?thesis by simp
  qed
  define st' where "st' = \<lparr>plan = (if chosen \<noteq> []
                  then plan st @
                       [\<lparr>year = year sem, termName = termName sem, label = label sem,
                         courses = map ?disp chosen,
                         fromPrediction = (if fp then Some True else None)\<rparr>]
                  else plan st),
          remaining = filter (\<lambda>y. y \<notin> set chosen) (remaining st),
          cache = Some c', wld = w'\<rparr>"
  have step: "planStep n f (buildCodeToOriginal f codes) sem st = Inr st'"
    unfolding st'_def by (rule planStep_result [OF res ch])
  have p: "plan st' = (if chosen \<noteq> []
                  then plan st @
                       [\<lparr>year = year sem, termName = termName sem, label = label sem,
                         courses = map (\<lambda>k. last (filter (\<lambda>d. f d = k) codes)) chosen,
                         fromPrediction = (if fp then Some True else None)\<rparr>]
                  else plan st)"
    by (simp add: st'_def disp)
  have s: "scheduledCodes f (plan st') = scheduledCodes f (plan st) @ chosen"
    using nb by (simp add: st'_def)
  have "remaining st' = filter (\<lambda>y. y \<notin> set chosen) (filter (\<lambda>d. d \<notin> ?S) ?D)"
    by (simp add: st'_def R)
  also have "\<dots> = filter (\<lambda>d. d \<notin> set (scheduledCodes f (plan st) @ chosen)) ?D"
    by (simp add: conj_commute)
  finally have r: "remaining st' = filter (\<lambda>d. d \<notin> set (scheduledCodes f (plan st'))) ?D"
    using s by simp
  have c: "cache st' = Some c'" "wld st' = w'"
    by (simp_all add: st'_def)
  from step p s r c show ?thesis by blast
qed

lemma planStep_keeps:
  assumes R: "remaining st =
                filter (\<lambda>d. d \<notin> set (scheduledCodes f (plan st))) (newSet (map f codes))"
    and D: "distinct (scheduledCodes f (plan st))"
    and L: "\<forall>c \<in> set (concat (map courses (plan st))).
              c \<in> set codes \<and> c = last (filter (\<lambda>d. f d = f c) codes)"
    and C: "0 \<le> n \<longrightarrow> (\<forall>item \<in> set (plan st). int (length (courses item)) \<le> n)"
    and Z: "n = 0 \<longrightarrow> plan st = []"
    and step: "planStep n f (buildCodeToOriginal f codes) sem st = Inr st'"
  shows "remaining st' =
           filter (\<lambda>d. d \<notin> set (scheduledCodes f (plan st'))) (newSet (map f codes))"
    and "distinct (scheduledCodes f (plan st'))"
    and "\<forall>c \<in> set (concat (map courses (plan st'))).
              c \<in> set codes \<and> c = last (filter (\<lambda>d. f d = f c) codes)"
    and "0 \<le> n \<longrightarrow> (\<forall>item \<in> set (plan st'). int (length (courses item)) \<le> n)"
    and "n = 0 \<longrightarrow> plan st' = []"
proof -
  obtain offs c' fp w' where
    res: "getOfferingsForSemesterWithPrediction (year sem) (termName sem) (cache st) (wld st) =
       Inr (offs, c', fp, w')"
    using getOfferingsForSemesterWithPrediction_Inr by blast
  define ranked where
    "ranked = filter (\<lambda>d. d \<notin> set (scheduledCodes f (plan st)) \<and> d \<in> f ` set offs)
                (newSet (map f codes))"
  define chosen where "chosen = slice0 ranked n"
  have ch: "chosen = slice0 (filter (\<lambda>d. d \<notin> set (scheduledCodes f (plan st)) \<and> d \<in> f ` set offs)
                                   (newSet (map f codes))) n"
    by (simp add: chosen_def ranked_def)
  from planStep_scheduled [OF R res ch] step
  have p: "plan st' = (if chosen \<noteq> []
                  then plan st @
                       [\<lparr>year = year sem, termName = termName sem, label = label sem,
                         courses = map (\<lambda>k. last (filter (\<lambda>d. f d = k) codes)) chosen,
                         fromPrediction = (if fp then Some True else None)\<rparr>]
                  else plan st)"
    and s: "scheduledCodes f (plan st') = scheduledCodes f (plan st) @ chosen"
    and r: "remaining st' =
        filter (\<lambda>d. d \<notin> set (scheduledCodes f (plan st'))) (newSet (map f codes))"
    by auto
  show "remaining st' =
           filter (\<lambda>d. d \<notin> set (scheduledCodes f (plan st'))) (newSet (map f codes))"
    by (rule r)
  have pre: "prefix chosen ranked"
    by (simp add: chosen_def prefix_slice0)
  have dr: "distinct ranked"
    by (simp add: ranked_def)
  from pre dr have dc: "distinct chosen"
    by (auto simp: prefix_def)
  from pre have sub: "set chosen \<subseteq> set ranked"
    by (rule set_mono_prefix)
  then have disj: "set chosen \<inter> set (scheduledCodes f (plan st)) = {}"
    by (auto simp: ranked_def)
  from sub have incodes: "set chosen \<subseteq> f ` set codes"
    by (auto simp: ranked_def)
  from D dc disj have "distinct (scheduledCodes f (plan st) @ chosen)"
    by auto
  with s show "distinct (scheduledCodes f (plan st'))"
    by simp
  have new: "c \<in> set codes \<and> c = last (filter (\<lambda>d. f d = f c) codes)"
    if "c \<in> set (map (\<lambda>k. last (filter (\<lambda>d. f d = k) codes)) chosen)" for c
  proof -
    from that obtain k where k: "k \<in> set chosen" "c = last (filter (\<lambda>d. f d = k) codes)"
      by auto
    with incodes have kc: "k \<in> f ` set codes" by blast
    from display_normalizes(1,2) [OF kc] k have "f c = k" by simp
    with display_normalizes(3) [OF kc] k show ?thesis by simp
  qed
  show "\<forall>c \<in> set (concat (map courses (plan st'))).
              c \<in> set codes \<and> c = last (filter (\<lambda>d. f d = f c) codes)"
  proof (cases "chosen = []")
    case True
    with p L show ?thesis by simp
  next
    case False
    with p have "set (concat (map courses (plan st'))) =
      set (concat (map courses (plan st))) \<union>
      set (map (\<lambda>k. last (filter (\<lambda>d. f d = k) codes)) chosen)"
      by simp
    with L new show ?thesis by blast
  qed
  show "0 \<le> n \<longrightarrow> (\<forall>item \<in> set (plan st'). int (length (courses item)) \<le> n)"
  proof
    assume n: "0 \<le> n"
    then have "length chosen \<le> nat n"
      by (simp add: chosen_def length_slice0)
    with n have "int (length chosen) \<le> n" by simp
    with p C n show "\<forall>item \<in> set (plan st'). int (length (courses item)) \<le> n"
      by (cases "chosen = []") auto
  qed
  show "n = 0 \<longrightarrow> plan st' = []"
  proof
    assume "n = 0"
    then have "chosen = []" by (simp add: chosen_def)
    with p Z \<open>n = 0\<close> show "plan st' = []" by simp
  qed
qed

lemma planLoop_from_initialState:
  "\<exists>st. planLoop n f (buildCodeToOriginal f codes) sems (initialState codes f w) = Inr st \<and>
      remaining st = filter (\<lambda>d. d \<notin> set (scheduledCodes f (plan st))) (newSet (map f codes)) \<and>
      distinct (scheduledCodes f (plan st)) \<and>
      (\<forall>c \<in> set (concat (map courses (plan st))).
          c \<in> set codes \<and> c = last (filter (\<lambda>d. f d = f c) codes)) \<and>
      (0 \<le> n \<longrightarrow> (\<forall>item \<in> set (plan st). int (length (courses item)) \<le> n)) \<and>
      (n = 0 \<longrightarrow> plan st = [])"
proof -
  define I where "I = (\<lambda>st::planState.
      remaining st = filter (\<lambda>d. d \<notin> set (scheduledCodes f (plan st))) (newSet (map f codes)) \<and>
      distinct (scheduledCodes f (plan st)) \<and>
      (\<forall>c \<in> set (concat (map courses (plan st))).
          c \<in> set codes \<and> c = last (filter (\<lambda>d. f d = f c) codes)) \<and>
      (0 \<le> n \<longrightarrow> (\<forall>item \<in> set (plan st). int (length (courses item)) \<le> n)) \<and>
      (n = 0 \<longrightarrow> plan st = []))"
  have i0: "I (initialState codes f w)"
    by (simp add: I_def initialState_def split: prod.splits)
  have step: "I s'" if "I s" "remaining s \<noteq> []"
    "planStep n f (buildCodeToOriginal f codes) sem s = Inr s'" for sem s s'
    using that(1) planStep_keeps [OF _ _ _ _ _ that(3)] unfolding I_def by blast
  have "\<exists>s. planLoop n f (buildCodeToOriginal f codes) sems (initialState codes f w) = Inr s \<and> I s"
  proof (rule planLoop_invariant [of I "initialState codes f w", OF i0])
    fix sem s s'
    assume "I s" "remaining s \<noteq> []" "planStep n f (buildCodeToOriginal f codes) sem s = Inr s'"
    then show "I s'" by (rule step)
  qed
  then show ?thesis
    unfolding I_def .
qed


lemma buildSemesterPlan_invariant:
  "\<exists>p w'. buildSemesterPlan codes n f w = Inr (p, w') \<and>
      distinct (scheduledCodes f p) \<and>
      (\<forall>c \<in> set (concat (map courses p)).
          c \<in> set codes \<and> c = last (filter (\<lambda>d. f d = f c) codes)) \<and>
      (0 \<le> n \<longrightarrow> (\<forall>item \<in> set p. int (length (courses item)) \<le> n)) \<and>
      (n = 0 \<longrightarrow> p = [])"
proof -
  obtain st where
    "planLoop n f (buildCodeToOriginal f codes) (horizon (wld (initialState codes f w)))
       (initialState codes f w) = Inr st"
    and "distinct (scheduledCodes f (plan st))"
    and "\<forall>c \<in> set (concat (map courses (plan st))).
          c \<in> set codes \<and> c = last (filter (\<lambda>d. f d = f c) codes)"
    and "0 \<le> n \<longrightarrow> (\<forall>item \<in> set (plan st). int (length (courses item)) \<le> n)"
    and "n = 0 \<longrightarrow> plan st = []"
    using planLoop_from_initialState [of n f codes "horizon (wld (initialState codes f w))" w]
    by blast
  moreover from this(1) have "buildSemesterPlan codes n f w = Inr (plan st, wld st)"
    by (simp add: buildSemesterPlan_def Let_def)
  ultimately show ?thesis by blast
qed

lemma distinct_concat_disjoint:
  assumes "distinct (concat xss)" "i < j" "j < length xss"
  shows "set (xss ! i) \<inter> set (xss ! j) = {}"
  using assms
proof (induction xss arbitrary: i j)
  case Nil
  then show ?case by simp
next
  case (Cons xs xss)
  show ?case
  proof (cases i)
    case 0
    with Cons.prems obtain j' where j': "j = Suc j'" "j' < length xss"
      by (cases j) auto
    from nth_mem [OF j'(2)] have "set (xss ! j') \<subseteq> set (concat xss)"
      by auto
    with Cons.prems(1) 0 j' show ?thesis by auto
  next
    case (Suc i')
    with Cons.prems obtain j' where j': "j = Suc j'" "i' < j'" "j' < length xss"
      by (cases j) auto
    from Cons.prems(1) have "distinct (concat xss)" by simp
    from Cons.IH [OF this j'(2,3)] Suc j' show ?thesis by simp
  qed
qed

lemma example_plans:
  "map courses (fst (projr (buildSemesterPlan desiredExample 2 normalizeCode fallWorld))) =
     [[''CMPT 225'', ''CMPT 295''], [''MATH 240'']]"
  "map courses (fst (projr (buildSemesterPlan desiredExample (- 1) normalizeCode fallWorld))) =
     [[''CMPT 225'', ''CMPT 295'']]"
  "map courses (fst (projr (buildSemesterPlan [''CMPT225'', ''cmpt 225''] 3 normalizeCode fallWorld))) =
     [[''cmpt 225'']]"
  by code_simp+

lemma example_empty_plan:
  "fst (projr (buildSemesterPlan desiredExample 0 normalizeCode fallWorld)) = []"
  by code_simp

lemma normalizeCode_examples:
  "normalizeCode ''CMPT225'' = ''CMPT 225''" "normalizeCode ''cmpt 225'' = ''CMPT 225''"
  by code_simp+












section \<open>The properties\<close>

text \<open>
  Claim C1, as the code has it.  The scheduler always returns a plan.  For a capacity that
  is not negative, every plan item has at most that many courses, and for the capacity
  zero the plan is empty.  (For a negative capacity \<open>slice(0, n)\<close> counts from the end of
  the list; the theorem says nothing about that case.)
\<close>

theorem capacity_respected:
  "\<exists>p w'. buildSemesterPlan codes n f w = Inr (p, w') \<and>
      (0 \<le> n \<longrightarrow> (\<forall>item \<in> set p. int (length (courses item)) \<le> n)) \<and>
      (n = 0 \<longrightarrow> p = [])"
  using buildSemesterPlan_invariant [of codes n f w] by blast

theorem capacity_respected_witness:
  "(0::int) \<le> 2 \<and>
   map courses (fst (projr (buildSemesterPlan desiredExample 2 normalizeCode fallWorld))) =
     [[''CMPT 225'', ''CMPT 295''], [''MATH 240'']] \<and>
   int (length (courses (fst (projr (buildSemesterPlan desiredExample 2 normalizeCode fallWorld)) ! 0)))
     \<le> 2 \<and>
   fst (projr (buildSemesterPlan desiredExample 0 normalizeCode fallWorld)) = []"
proof -
  obtain p w' where b: "buildSemesterPlan desiredExample 2 normalizeCode fallWorld = Inr (p, w')"
    and c: "\<forall>item \<in> set p. int (length (courses item)) \<le> 2"
    using capacity_respected [of desiredExample 2 normalizeCode fallWorld] by auto
  from b have p: "fst (projr (buildSemesterPlan desiredExample 2 normalizeCode fallWorld)) = p"
    by simp
  from example_plans(1) p have "length (map courses p) = 2" by simp
  then have "p ! 0 \<in> set p" by simp
  with c have "int (length (courses (p ! 0))) \<le> 2" by blast
  with p have two:
    "int (length (courses (fst (projr (buildSemesterPlan desiredExample 2 normalizeCode fallWorld)) ! 0)))
       \<le> 2"
    by simp
  obtain q v' where "buildSemesterPlan desiredExample 0 normalizeCode fallWorld = Inr (q, v')"
    and "q = []"
    using capacity_respected [of desiredExample 0 normalizeCode fallWorld] by auto
  then have zero: "fst (projr (buildSemesterPlan desiredExample 0 normalizeCode fallWorld)) = []"
    by simp
  from two zero example_plans(1) show ?thesis by simp
qed

text \<open>
  The claim C1 as stated fails for a negative capacity: with the capacity \<open>-1\<close> and three
  desired courses that are all offered in the current term, the plan is not empty, and
  its item has two courses.
\<close>

theorem negative_capacity_counterexample:
  "map courses (fst (projr (buildSemesterPlan [''CMPT 225'', ''CMPT 295'', ''MATH 240''] (- 1)
      normalizeCode fallWorld))) = [[''CMPT 225'', ''CMPT 295'']]"
  using example_plans(2) by (simp add: desiredExample_def)

text \<open>
  Claim C2.  The scheduler always returns a plan; the normalized codes of all the courses
  of the plan, taken in order, are pairwise different, so are the courses themselves, and
  two different plan items have no normalized code in common.
\<close>

theorem no_duplicate_scheduling:
  "\<exists>p w'. buildSemesterPlan codes n f w = Inr (p, w') \<and>
      distinct (map f (concat (map courses p))) \<and>
      distinct (concat (map courses p)) \<and>
      (\<forall>i j. i < j \<and> j < length p \<longrightarrow>
         f ` set (courses (p ! i)) \<inter> f ` set (courses (p ! j)) = {} \<and>
         set (courses (p ! i)) \<inter> set (courses (p ! j)) = {})"
proof -
  obtain p w' where b: "buildSemesterPlan codes n f w = Inr (p, w')"
    and d: "distinct (map f (concat (map courses p)))"
    using buildSemesterPlan_invariant [of codes n f w] by blast
  from d have d2: "distinct (concat (map courses p))"
    by (simp add: distinct_map)
  have "f ` set (courses (p ! i)) \<inter> f ` set (courses (p ! j)) = {} \<and>
        set (courses (p ! i)) \<inter> set (courses (p ! j)) = {}"
    if ij: "i < j" "j < length p" for i j
  proof -
    have "concat (map (map f \<circ> courses) p) = map f (concat (map courses p))"
      by (simp add: map_concat)
    with d have "distinct (concat (map (map f \<circ> courses) p))" by simp
    from distinct_concat_disjoint [OF this, of i j] ij
    have "f ` set (courses (p ! i)) \<inter> f ` set (courses (p ! j)) = {}" by simp
    moreover from distinct_concat_disjoint [OF d2, of i j] ij
    have "set (courses (p ! i)) \<inter> set (courses (p ! j)) = {}" by simp
    ultimately show ?thesis by simp
  qed
  with b d d2 show ?thesis by blast
qed

theorem no_duplicate_scheduling_witness:
  "(0::nat) < 1 \<and>
   1 < length (fst (projr (buildSemesterPlan desiredExample 2 normalizeCode fallWorld))) \<and>
   set (courses (fst (projr (buildSemesterPlan desiredExample 2 normalizeCode fallWorld)) ! 0)) \<inter>
   set (courses (fst (projr (buildSemesterPlan desiredExample 2 normalizeCode fallWorld)) ! 1)) = {}"
proof -
  obtain p w' where b: "buildSemesterPlan desiredExample 2 normalizeCode fallWorld = Inr (p, w')"
    and d: "\<forall>i j. i < j \<and> j < length p \<longrightarrow>
         normalizeCode ` set (courses (p ! i)) \<inter> normalizeCode ` set (courses (p ! j)) = {} \<and>
         set (courses (p ! i)) \<inter> set (courses (p ! j)) = {}"
    using no_duplicate_scheduling [of desiredExample 2 normalizeCode fallWorld] by blast
  from b have p: "fst (projr (buildSemesterPlan desiredExample 2 normalizeCode fallWorld)) = p"
    by simp
  from example_plans(1) p have "length (map courses p) = 2" by simp
  then have l: "1 < length p" by simp
  with d have "set (courses (p ! 0)) \<inter> set (courses (p ! 1)) = {}" by simp
  with l p show ?thesis by simp
qed

text \<open>
  Claim C3.  The resolution step always returns; when its offerings are not empty the
  wrapper returns them with \<open>fromPrediction = false\<close>, and when they are empty it returns
  the entry of the updated cache for the same term of the year before (or the empty list),
  with \<open>fromPrediction = true\<close>.  In particular, with a cache that holds
  \<open>["CMPT 120"]\<close> for \<open>2023-fall\<close> and nothing for \<open>2024-fall\<close>, and a fetch that
  returns nothing, resolving fall 2024 gives \<open>["CMPT 120"]\<close> with \<open>fromPrediction = true\<close>.
\<close>

theorem prediction_wrapper:
  "(\<exists>offs c' w'. getOfferingsForSemester y t cch w = Inr (offs, c', w') \<and>
      getOfferingsForSemesterWithPrediction y t cch w =
        Inr (if offs \<noteq> [] then offs
             else (case semesters c' (semesterKey (y - 1) t) of Some p \<Rightarrow> p | None \<Rightarrow> []),
             c', offs = [], w')) \<and>
   (semesters c ''2023-fall'' = Some [''CMPT 120''] \<and> semesters c ''2024-fall'' = None \<and>
    catalog w 2024 ''fall'' = [] \<longrightarrow>
      (\<exists>c' w'. getOfferingsForSemesterWithPrediction 2024 ''fall'' (Some c) w =
          Inr ([''CMPT 120''], c', True, w')))"
proof
  obtain offs c' w' where g: "getOfferingsForSemester y t cch w = Inr (offs, c', w')"
    using getOfferingsForSemester_Inr by blast
  then have "getOfferingsForSemesterWithPrediction y t cch w =
        Inr (if offs \<noteq> [] then offs
             else (case semesters c' (semesterKey (y - 1) t) of Some p \<Rightarrow> p | None \<Rightarrow> []),
             c', offs = [], w')"
    by (simp add: getOfferingsForSemesterWithPrediction_def predictOfferingsForSemester_def)
  with g show "\<exists>offs c' w'. getOfferingsForSemester y t cch w = Inr (offs, c', w') \<and>
      getOfferingsForSemesterWithPrediction y t cch w =
        Inr (if offs \<noteq> [] then offs
             else (case semesters c' (semesterKey (y - 1) t) of Some p \<Rightarrow> p | None \<Rightarrow> []),
             c', offs = [], w')"
    by blast
next
  show "semesters c ''2023-fall'' = Some [''CMPT 120''] \<and> semesters c ''2024-fall'' = None \<and>
    catalog w 2024 ''fall'' = [] \<longrightarrow>
      (\<exists>c' w'. getOfferingsForSemesterWithPrediction 2024 ''fall'' (Some c) w =
          Inr ([''CMPT 120''], c', True, w'))"
  proof
    assume a: "semesters c ''2023-fall'' = Some [''CMPT 120''] \<and>
      semesters c ''2024-fall'' = None \<and> catalog w 2024 ''fall'' = []"
    then have "semesters c (semesterKey 2024 ''fall'') = None \<or>
               semesters c (semesterKey 2024 ''fall'') = Some []"
      by (simp add: semesterKey_examples)
    from getOfferingsForSemester_miss [OF this, of w] a
    show "\<exists>c' w'. getOfferingsForSemesterWithPrediction 2024 ''fall'' (Some c) w =
          Inr ([''CMPT 120''], c', True, w')"
      using semesterKey_examples
      by (auto simp: getOfferingsForSemesterWithPrediction_def predictOfferingsForSemester_def)
  qed
qed

theorem prediction_wrapper_witness:
  "semesters exampleCache ''2023-fall'' = Some [''CMPT 120''] \<and>
   semesters exampleCache ''2024-fall'' = None \<and>
   catalog exampleWorld 2024 ''fall'' = [] \<and>
   (\<exists>c' w'. getOfferingsForSemesterWithPrediction 2024 ''fall'' (Some exampleCache) exampleWorld =
          Inr ([''CMPT 120''], c', True, w'))"
  using prediction_wrapper [of 2024 "''fall''" "Some exampleCache" exampleWorld exampleCache]
  by (simp add: exampleCache_def exampleWorld_def)



text \<open>
  Claim C5.  When the cache holds a non-empty entry for the term key, resolution returns
  that entry and the cache as they are and leaves the world as it is: no request is
  logged and nothing is written.  Resolving the same term twice from the same cache, with
  the same answers of the service, gives the same offerings and the same entries; and
  resolving again from the cache that the first call returned gives the same offerings
  and leaves the entries unchanged.
\<close>

theorem resolution_cache_hit_idempotent:
  "(semesters c (semesterKey y t) = Some xs \<and> xs \<noteq> [] \<longrightarrow>
      getOfferingsForSemester y t (Some c) w = Inr (xs, c, w)) \<and>
   (catalog v = catalog w \<longrightarrow>
      (\<exists>offs c1 w1 c2 v1.
         getOfferingsForSemester y t cch w = Inr (offs, c1, w1) \<and>
         getOfferingsForSemester y t cch v = Inr (offs, c2, v1) \<and>
         semesters c2 = semesters c1)) \<and>
   (\<exists>offs c1 w1 c2 w2.
      getOfferingsForSemester y t cch w = Inr (offs, c1, w1) \<and>
      getOfferingsForSemester y t (Some c1) w1 = Inr (offs, c2, w2) \<and>
      semesters c2 = semesters c1)"
proof (intro conjI impI)
  assume "semesters c (semesterKey y t) = Some xs \<and> xs \<noteq> []"
  then show "getOfferingsForSemester y t (Some c) w = Inr (xs, c, w)"
    using getOfferingsForSemester_hit by blast
next
  assume cat: "catalog v = catalog w"
  show "\<exists>offs c1 w1 c2 v1.
         getOfferingsForSemester y t cch w = Inr (offs, c1, w1) \<and>
         getOfferingsForSemester y t cch v = Inr (offs, c2, v1) \<and>
         semesters c2 = semesters c1"
  proof (cases cch)
    case None
    with cat show ?thesis
      using getOfferingsForSemester_null [of y t w] getOfferingsForSemester_null [of y t v]
      by auto
  next
    case (Some c)
    show ?thesis
    proof (cases "semesters c (semesterKey y t) = None \<or> semesters c (semesterKey y t) = Some []")
      case True
      with cat Some show ?thesis
        using getOfferingsForSemester_miss [of c y t w] getOfferingsForSemester_miss [of c y t v]
        by auto
    next
      case False
      then obtain xs where "semesters c (semesterKey y t) = Some xs" "xs \<noteq> []" by auto
      with Some show ?thesis
        using getOfferingsForSemester_hit [of c y t xs] by auto
    qed
  qed
next
  show "\<exists>offs c1 w1 c2 w2.
      getOfferingsForSemester y t cch w = Inr (offs, c1, w1) \<and>
      getOfferingsForSemester y t (Some c1) w1 = Inr (offs, c2, w2) \<and>
      semesters c2 = semesters c1"
  proof -
    have miss_case: "\<exists>offs c1 w1 c2 w2.
      getOfferingsForSemester y t cch w = Inr (offs, c1, w1) \<and>
      getOfferingsForSemester y t (Some c1) w1 = Inr (offs, c2, w2) \<and>
      semesters c2 = semesters c1"
      if first: "getOfferingsForSemester y t cch w = Inr (catalog w y t, c1, w1)"
        and c1: "semesters c1 (semesterKey y t) = Some (catalog w y t)"
        and w1: "catalog w1 = catalog w" for c1 w1
    proof (cases "catalog w y t = []")
      case True
      with c1 have "semesters c1 (semesterKey y t) = None \<or> semesters c1 (semesterKey y t) = Some []"
        by simp
      from getOfferingsForSemester_miss [OF this, of w1] obtain w2 where
        "getOfferingsForSemester y t (Some c1) w1 =
           Inr (catalog w1 y t,
                c1\<lparr>semesters := (semesters c1)(semesterKey y t \<mapsto> catalog w1 y t),
                   lastUpdated := nowISO w1\<rparr>, w2)"
        by blast
      moreover have "(semesters c1)(semesterKey y t \<mapsto> catalog w1 y t) = semesters c1"
        using c1 w1 by (auto simp: fun_upd_idem_iff)
      ultimately show ?thesis using first w1 by auto
    next
      case False
      with c1 first show ?thesis
        using getOfferingsForSemester_hit [of c1 y t "catalog w y t" w1] by auto
    qed
    show ?thesis
    proof (cases cch)
      case None
      obtain w1 where g: "getOfferingsForSemester y t None w =
           Inr (catalog w y t,
                \<lparr>lastUpdated = nowISO w, semesters = [semesterKey y t \<mapsto> catalog w y t]\<rparr>, w1)"
        and w1: "catalog w1 = catalog w"
        using getOfferingsForSemester_null [of y t w] by blast
      from g None have "getOfferingsForSemester y t cch w =
           Inr (catalog w y t,
                \<lparr>lastUpdated = nowISO w, semesters = [semesterKey y t \<mapsto> catalog w y t]\<rparr>, w1)"
        by simp
      from miss_case [OF this _ w1] show ?thesis by simp
    next
      case (Some c)
      show ?thesis
      proof (cases "semesters c (semesterKey y t) = None \<or> semesters c (semesterKey y t) = Some []")
        case True
        from getOfferingsForSemester_miss [OF this, of w] obtain w1 where
          g: "getOfferingsForSemester y t (Some c) w =
           Inr (catalog w y t,
                c\<lparr>semesters := (semesters c)(semesterKey y t \<mapsto> catalog w y t),
                  lastUpdated := nowISO w\<rparr>, w1)" and w1: "catalog w1 = catalog w"
          by blast
        from g Some have "getOfferingsForSemester y t cch w =
           Inr (catalog w y t,
                c\<lparr>semesters := (semesters c)(semesterKey y t \<mapsto> catalog w y t),
                  lastUpdated := nowISO w\<rparr>, w1)"
          by simp
        from miss_case [OF this _ w1] show ?thesis by simp
      next
        case False
        then obtain xs where "semesters c (semesterKey y t) = Some xs" "xs \<noteq> []" by auto
        with Some show ?thesis
          using getOfferingsForSemester_hit [of c y t xs] by auto
      qed
    qed
  qed
qed

theorem resolution_cache_hit_idempotent_witness:
  "semesters hitCache (semesterKey 2024 ''fall'') = Some [''CMPT 225''] \<and> [''CMPT 225''] \<noteq> [] \<and>
   catalog (exampleWorld\<lparr>fetchLog := [(2023, ''fall'')]\<rparr>) = catalog exampleWorld \<and>
   getOfferingsForSemester 2024 ''fall'' (Some hitCache) exampleWorld =
     Inr ([''CMPT 225''], hitCache, exampleWorld) \<and>
   getOfferingsForSemester 2024 ''fall'' (Some hitCache) (exampleWorld\<lparr>fetchLog := [(2023, ''fall'')]\<rparr>) =
     Inr ([''CMPT 225''], hitCache, exampleWorld\<lparr>fetchLog := [(2023, ''fall'')]\<rparr>)"
proof -
  have k: "semesters hitCache (semesterKey 2024 ''fall'') = Some [''CMPT 225'']"
    by (simp add: semesterKey_examples hitCache_def)
  have c: "catalog (exampleWorld\<lparr>fetchLog := [(2023, ''fall'')]\<rparr>) = catalog exampleWorld"
    by simp
  show ?thesis
    using k c
      resolution_cache_hit_idempotent [of hitCache 2024 "''fall''" "[''CMPT 225'']" exampleWorld
        "exampleWorld\<lparr>fetchLog := [(2023, ''fall'')]\<rparr>" "Some hitCache"]
      resolution_cache_hit_idempotent [of hitCache 2024 "''fall''" "[''CMPT 225'']"
        "exampleWorld\<lparr>fetchLog := [(2023, ''fall'')]\<rparr>" exampleWorld "Some hitCache"]
    by simp
qed

text \<open>
  Claim C6.  Resolution returns a cache in which every key other than the resolved term
  key has the entry it had in the input cache, and every key of the input cache is still
  a key, whatever the storage medium does.
\<close>

theorem resolution_frame:
  "\<exists>offs c' w'. getOfferingsForSemester y t cch w = Inr (offs, c', w') \<and>
     (\<forall>k. k \<noteq> semesterKey y t \<longrightarrow>
        semesters c' k = (case cch of None \<Rightarrow> None | Some c \<Rightarrow> semesters c k)) \<and>
     (case cch of None \<Rightarrow> {} | Some c \<Rightarrow> dom (semesters c)) \<subseteq> dom (semesters c')"
proof (cases cch)
  case None
  then show ?thesis using getOfferingsForSemester_null [of y t w] by auto
next
  case (Some c)
  show ?thesis
  proof (cases "semesters c (semesterKey y t) = None \<or> semesters c (semesterKey y t) = Some []")
    case True
    from getOfferingsForSemester_miss [OF this, of w] Some show ?thesis by auto
  next
    case False
    then obtain xs where "semesters c (semesterKey y t) = Some xs" "xs \<noteq> []" by auto
    with Some show ?thesis
      using getOfferingsForSemester_hit [of c y t xs w] by auto
  qed
qed

theorem resolution_frame_witness:
  "''2023-fall'' \<noteq> semesterKey 2024 ''fall'' \<and>
   (\<exists>offs c' w'. getOfferingsForSemester 2024 ''fall'' (Some exampleCache) exampleWorld =
        Inr (offs, c', w') \<and>
      semesters c' ''2023-fall'' = Some [''CMPT 120''] \<and>
      ''2023-fall'' \<in> dom (semesters c'))"
proof -
  have k: "''2023-fall'' \<noteq> semesterKey 2024 ''fall''"
    by (simp add: semesterKey_examples)
  obtain offs c' w' where
    g: "getOfferingsForSemester 2024 ''fall'' (Some exampleCache) exampleWorld = Inr (offs, c', w')"
    and f: "\<forall>k. k \<noteq> semesterKey 2024 ''fall'' \<longrightarrow> semesters c' k = semesters exampleCache k"
    and d: "dom (semesters exampleCache) \<subseteq> dom (semesters c')"
    using resolution_frame [of 2024 "''fall''" "Some exampleCache" exampleWorld] by auto
  from f k have "semesters c' ''2023-fall'' = Some [''CMPT 120'']"
    by (simp add: exampleCache_def)
  with g k show ?thesis by auto
qed

text \<open>
  Claim C7.  In the copy of the module in src/unnamed/part_003 the write is not guarded:
  on a medium that refuses the write, \<open>writeCache\<close> of that copy ends with the exception,
  where \<open>writeCache\<close> of src/lib/sfuOfferings.ts returns normally on the same input.
\<close>

theorem writeCache_part003_throws:
  "writeCache_part003 exampleCache readOnlyWorld = Inl FsError \<and>
   writeCache exampleCache readOnlyWorld = Inr readOnlyWorld"
  by (simp add: writeCache_part003_def getCachePath_part003_def writeCache_def getCachePath_def
      writeFileSync_def readOnlyWorld_def)

text \<open>
  Claim C8, as the code has it.  The scheduler always returns a plan in which no normalized
  code occurs twice, and every course of the plan is a code of the input list in the
  display form of the last code of the list with the same normalized code (each
  \<open>codeToOriginal.set\<close> replaces the form stored before).
\<close>

theorem display_form_is_last:
  "\<exists>p w'. buildSemesterPlan codes n f w = Inr (p, w') \<and>
      distinct (map f (concat (map courses p))) \<and>
      (\<forall>item \<in> set p. \<forall>c \<in> set (courses item).
          c \<in> set codes \<and> c = last (filter (\<lambda>d. f d = f c) codes))"
proof -
  obtain p w' where b: "buildSemesterPlan codes n f w = Inr (p, w')"
    and d: "distinct (map f (concat (map courses p)))"
    and l: "\<forall>c \<in> set (concat (map courses p)).
          c \<in> set codes \<and> c = last (filter (\<lambda>d. f d = f c) codes)"
    using buildSemesterPlan_invariant [of codes n f w] by blast
  from l have "\<forall>item \<in> set p. \<forall>c \<in> set (courses item).
          c \<in> set codes \<and> c = last (filter (\<lambda>d. f d = f c) codes)"
    by simp
  with b d show ?thesis by blast
qed

theorem display_form_is_last_witness:
  "map courses (fst (projr (buildSemesterPlan [''CMPT225'', ''cmpt 225''] 3 normalizeCode fallWorld))) =
     [[''cmpt 225'']] \<and>
   ''cmpt 225'' \<in> set [''CMPT225'', ''cmpt 225''] \<and>
   ''cmpt 225'' =
     last (filter (\<lambda>d. normalizeCode d = normalizeCode ''cmpt 225'') [''CMPT225'', ''cmpt 225''])"
proof -
  obtain p w' where
    b: "buildSemesterPlan [''CMPT225'', ''cmpt 225''] 3 normalizeCode fallWorld = Inr (p, w')"
    and l: "\<forall>item \<in> set p. \<forall>c \<in> set (courses item).
        c \<in> set [''CMPT225'', ''cmpt 225''] \<and>
        c = last (filter (\<lambda>d. normalizeCode d = normalizeCode c) [''CMPT225'', ''cmpt 225''])"
    using display_form_is_last [of "[''CMPT225'', ''cmpt 225'']" 3 normalizeCode fallWorld]
    by blast
  from b have "fst (projr (buildSemesterPlan [''CMPT225'', ''cmpt 225''] 3 normalizeCode fallWorld)) = p"
    by simp
  with example_plans(3) have m: "map courses p = [[''cmpt 225'']]" by simp
  then obtain item where "item \<in> set p" "courses item = [''cmpt 225'']"
    by (cases p) auto
  with l have "''cmpt 225'' \<in> set [''CMPT225'', ''cmpt 225''] \<and>
    ''cmpt 225'' =
      last (filter (\<lambda>d. normalizeCode d = normalizeCode ''cmpt 225'') [''CMPT225'', ''cmpt 225''])"
    by (metis list.set_intros(1))
  with example_plans(3) show ?thesis by blast
qed

text \<open>
  The claim C8 as stated fails: for the list \<open>["CMPT225", "cmpt 225"]\<close>, whose two codes
  have the same normalized code, the plan item carries \<open>"cmpt 225"\<close>, the second display
  form, and not the first.
\<close>

theorem first_display_form_counterexample:
  "normalizeCode ''CMPT225'' = normalizeCode ''cmpt 225'' \<and>
   map courses (fst (projr (buildSemesterPlan [''CMPT225'', ''cmpt 225''] 3 normalizeCode fallWorld))) =
     [[''cmpt 225'']]"
  using example_plans(3) normalizeCode_examples by simp

text \<open>
  Claim C9, as the code has it.  A start term outside the cycle raises nothing:
  \<open>listSemesters\<close> replaces it by the first term of the cycle, so the list is the one for
  \<open>spring\<close>.
\<close>

theorem listSemesters_unknown_term_is_spring:
  assumes "indexOf TERMS (toLowerCase startTerm) < 0"
  shows "listSemesters startYear startTerm maxSemesters =
         listSemesters startYear ''spring'' maxSemesters"
  using assms by (simp add: listSemesters_def toLowerCase_TERMS indexOf_TERMS)

theorem listSemesters_unknown_term_is_spring_witness:
  "indexOf TERMS (toLowerCase ''winter'') < 0 \<and>
   listSemesters 2024 ''winter'' 3 = listSemesters 2024 ''spring'' 3"
proof -
  have h: "indexOf TERMS (toLowerCase ''winter'') < 0"
    by code_simp
  from h listSemesters_unknown_term_is_spring [OF h, of 2024 3] show ?thesis
    by simp
qed

text \<open>
  The claim C9 as stated fails: for the start term \<open>winter\<close>, which is not in the cycle,
  \<open>listSemesters\<close> returns the terms from spring on, with no error.
\<close>

theorem listSemesters_winter_counterexample:
  "indexOf TERMS (toLowerCase ''winter'') = - 1 \<and>
   listSemesters 2024 ''winter'' 2 =
     [\<lparr>year = 2024, termName = ''spring'', label = ''Spring 2024''\<rparr>,
      \<lparr>year = 2024, termName = ''summer'', label = ''Summer 2024''\<rparr>]"
  by code_simp

text \<open>
  Claim C10.  For a date whose month index is one that \<open>getMonth\<close> returns, the current
  semester has the calendar year of the date and a term of the cycle: spring for the
  months 1 to 4, summer for 5 to 8, fall for 9 to 12.  The term is in lower case already,
  and the horizon of the scheduler starts at that year and term.
\<close>

theorem getCurrentSemester_by_month:
  assumes "monthIndex (today w) \<le> 11"
  shows "fst (getCurrentSemester (today w)) = fullYear (today w) \<and>
         snd (getCurrentSemester (today w)) \<in> set TERMS \<and>
         (snd (getCurrentSemester (today w)) = ''spring'') = (monthIndex (today w) + 1 \<in> {1..4}) \<and>
         (snd (getCurrentSemester (today w)) = ''summer'') = (monthIndex (today w) + 1 \<in> {5..8}) \<and>
         (snd (getCurrentSemester (today w)) = ''fall'') = (monthIndex (today w) + 1 \<in> {9..12}) \<and>
         toLowerCase (snd (getCurrentSemester (today w))) = snd (getCurrentSemester (today w)) \<and>
         hd (horizon w) =
           \<lparr>year = fullYear (today w), termName = snd (getCurrentSemester (today w)),
            label = cap (snd (getCurrentSemester (today w))) @ '' '' @
                    numberToString (fullYear (today w))\<rparr>"
proof -
  let ?t = "snd (getCurrentSemester (today w))"
  have y: "fst (getCurrentSemester (today w)) = fullYear (today w)"
    by (simp add: getCurrentSemester_def Let_def)
  have t: "?t \<in> set TERMS"
    by (simp add: getCurrentSemester_def Let_def TERMS_def)
  have m: "(?t = ''spring'') = (monthIndex (today w) + 1 \<in> {1..4})"
    "(?t = ''summer'') = (monthIndex (today w) + 1 \<in> {5..8})"
    "(?t = ''fall'') = (monthIndex (today w) + 1 \<in> {9..12})"
    using assms by (auto simp: getCurrentSemester_def Let_def)
  have l: "toLowerCase ?t = ?t"
    using t by (auto simp: TERMS_def toLowerCase_TERMS)
  have "horizon w = listSemesters (fullYear (today w)) ?t MAX_SEMESTERS_PLAN"
    by (simp add: horizon_def getCurrentSemester_def Let_def)
  with hd_listSemesters [OF t, of "fullYear (today w)"]
  have h: "hd (horizon w) =
           \<lparr>year = fullYear (today w), termName = ?t,
            label = cap ?t @ '' '' @ numberToString (fullYear (today w))\<rparr>"
    by simp
  from y t m l h show ?thesis by blast
qed

theorem getCurrentSemester_by_month_witness:
  "monthIndex (today exampleWorld) \<le> 11 \<and>
   getCurrentSemester (today exampleWorld) = (2024, ''fall'') \<and>
   hd (horizon exampleWorld) = \<lparr>year = 2024, termName = ''fall'', label = ''Fall 2024''\<rparr>"
proof -
  have h: "monthIndex (today exampleWorld) \<le> 11"
    by (simp add: exampleWorld_def)
  have g: "getCurrentSemester (today exampleWorld) = (2024, ''fall'')"
    by (simp add: exampleWorld_def getCurrentSemester_def)
  have c: "cap ''fall'' @ '' '' @ numberToString 2024 = ''Fall 2024''"
    by code_simp
  have f: "fullYear (today exampleWorld) = 2024"
    by (simp add: exampleWorld_def)
  from getCurrentSemester_by_month [OF h] g c f h show ?thesis
    by simp
qed

end
